theory Spec2Isabelle
  imports Complex_Main "HOL-Library.Word" "HOL-Library.Log_Nat"
begin

section \<open>pH reader and pump control (Arduino.cpp)\<close>

text \<open>
  The sketch keeps its whole state in global variables and in two function-local
  statics of \<^verbatim>\<open>loop\<close>. They are collected in one record that every function takes
  and returns. \<^verbatim>\<open>unsigned long\<close> is a 32-bit word whose subtraction wraps. The small
  \<^verbatim>\<open>int\<close> counters of the filter stay between 0 and \<^verbatim>\<open>MA_SIZE\<close> and are natural
  numbers.

  A \<^verbatim>\<open>float\<close> is a real number. The arithmetic of \<^verbatim>\<open>readVoltage\<close>, \<^verbatim>\<open>applyMA\<close> and
  \<^verbatim>\<open>computeCalibration\<close> (lines 55 to 96), whose computed values the properties of the
  filter and of the calibration are about, is IEEE binary32: every sum, difference,
  product and quotient is rounded to the nearest binary32 value, ties to even. The
  linear map, the clamps, the deviations and the comparisons of \<^verbatim>\<open>loop\<close> (lines 132 to
  179) are on the exact values; what is proved of the pump decision holds for every pH.
\<close>

subsection \<open>Binary32 rounding\<close>

text \<open>
  \<open>expo x\<close> is the binary exponent of a non-zero \<open>x\<close>: \<open>2 powi expo x \<le> \<bar>x\<bar> < 2 powi (expo x + 1)\<close>.
  \<open>rne\<close> rounds to the nearest integer, a tie to the even one. \<open>fl\<close> rounds to 24
  significant bits, and below the smallest normal number \<open>2 powi (- 126)\<close> to a multiple of
  \<open>2 powi (- 149)\<close>. Results of magnitude \<open>2 powi 128\<close> or more, where the format overflows
  to infinity, are rounded in the same way and not treated apart; the sketch's values are
  far below. None of the divisions of the sketch has a zero divisor: the divisors are
  1023, 3, 2, \<^verbatim>\<open>maCount\<close> after it has been incremented, and \<^verbatim>\<open>denom\<close> once its
  absolute value has been tested.
\<close>

definition expo :: "real \<Rightarrow> int" where
  "expo x = (if 1 \<le> \<bar>x\<bar> then bitlen \<lfloor>\<bar>x\<bar>\<rfloor> - 1 else - bitlen (\<lceil>1 / \<bar>x\<bar>\<rceil> - 1))"

definition rne :: "real \<Rightarrow> int" where
  "rne r = (let n = \<lfloor>r\<rfloor>; d = r - of_int n
            in if d < 1 / 2 then n else if d > 1 / 2 then n + 1
               else if even n then n else n + 1)"

definition fl :: "real \<Rightarrow> real" where
  "fl x = (if x = 0 then 0
           else (let q = 2 powi (max (expo x) (- 126) - 23) in of_int (rne (x / q)) * q))"

definition fadd :: "real \<Rightarrow> real \<Rightarrow> real" where "fadd x y = fl (x + y)"
definition fsub :: "real \<Rightarrow> real \<Rightarrow> real" where "fsub x y = fl (x - y)"
definition fmul :: "real \<Rightarrow> real \<Rightarrow> real" where "fmul x y = fl (x * y)"
definition fdiv :: "real \<Rightarrow> real \<Rightarrow> real" where "fdiv x y = fl (x / y)"

subsection \<open>Constants\<close>

type_synonym ulong = "32 word"

definition cal_pH1 :: real where "cal_pH1 = 4.0"
definition cal_V1 :: real where "cal_V1 = fl 3.60"
definition cal_pH2 :: real where "cal_pH2 = 7.0"
definition cal_V2 :: real where "cal_V2 = fdiv (fadd (fl 2.957) (fl 3.055)) 2.0"
definition cal_pH3 :: real where "cal_pH3 = 10.0"
definition cal_V3 :: real where "cal_V3 = fl 1.466"

definition MA_SIZE :: nat where "MA_SIZE = 10"

definition pumpBurstMs :: ulong where "pumpBurstMs = 1200"
definition minGapBetweenBursts :: ulong where "minGapBetweenBursts = 10 * 1000"

definition pH_low_threshold :: real where "pH_low_threshold = 6.45"
definition pH_low_exit :: real where "pH_low_exit = 6.7"
definition pH_high_threshold :: real where "pH_high_threshold = 7.55"
definition pH_high_exit :: real where "pH_high_exit = 7.3"

subsection \<open>Program state and outputs\<close>

record state =
  maBuffer :: "real list"
  maIndex :: nat
  maCount :: nat
  lastPumpMillis :: ulong
  pumpRunning :: bool
  slope :: real
  intercept :: real
  base_active :: bool
  acid_active :: bool

text \<open>The calls a cycle makes on the motor driver and the blocking delay between them.\<close>

datatype hw_call = RunBasicPump | RunAcidicPump | StopPumps | Delay ulong

text \<open>The fields of the JSON line printed at the end of a cycle, and the motor calls made.\<close>

record telemetry =
  out_pH :: real
  out_voltage :: real
  pumpType :: string
  pumpAction :: string
  hw_calls :: "hw_call list"

text \<open>The globals as their initialisers leave them, before the start-up function runs.\<close>

definition init_state :: state where
  "init_state = \<lparr> maBuffer = replicate MA_SIZE 0, maIndex = 0, maCount = 0,
     lastPumpMillis = 0, pumpRunning = False, slope = 0.0, intercept = 0.0,
     base_active = False, acid_active = False \<rparr>"

subsection \<open>Reading and filtering\<close>

text \<open>
  \<^verbatim>\<open>readVoltage\<close>, with the value of \<^verbatim>\<open>analogRead(phPin)\<close> as its argument: the reading
  converted to \<^verbatim>\<open>float\<close> and multiplied by the binary32 quotient of 5 by 1023.
\<close>

definition readVoltage :: "int \<Rightarrow> real" where
  "readVoltage raw = fmul (fl (real_of_int raw)) (fdiv 5.0 1023.0)"

text \<open>
  \<^verbatim>\<open>applyMA\<close>: store at the cursor, advance it modulo \<^verbatim>\<open>MA_SIZE\<close>, count up to
  \<^verbatim>\<open>MA_SIZE\<close>, then sum the slots \<^verbatim>\<open>0 .. maCount-1\<close> from \<^verbatim>\<open>0.0f\<close>, each addition
  rounded, and divide by \<^verbatim>\<open>maCount\<close>. The cursor is below \<^verbatim>\<open>MA_SIZE\<close> in every state the
  sketch reaches, so the store is always inside the array.
\<close>

definition applyMA :: "real \<Rightarrow> state \<Rightarrow> real \<times> state" where
  "applyMA v s =
     (let buf = (maBuffer s)[maIndex s := v];
          idx = (maIndex s + 1) mod MA_SIZE;
          cnt = (if maCount s < MA_SIZE then maCount s + 1 else maCount s);
          sum = fold (\<lambda>i acc. fadd acc (buf ! i)) [0..<cnt] 0.0
      in (fdiv sum (real cnt), s\<lparr>maBuffer := buf, maIndex := idx, maCount := cnt\<rparr>))"

subsection \<open>Calibration\<close>

text \<open>
  The body of \<^verbatim>\<open>computeCalibration\<close> over arbitrary arrays \<^verbatim>\<open>x\<close> (voltages) and
  \<^verbatim>\<open>y\<close> (pH values) of three entries: the accumulation loop, the denominator test and
  the two results \<^verbatim>\<open>(slope, intercept)\<close>, every operation rounded. The calibration
  voltages are the binary32 values of the constants of the sketch; the three pH values
  are binary32 values as they stand.
\<close>

definition cal_sums :: "real list \<Rightarrow> real list \<Rightarrow> real \<times> real \<times> real \<times> real" where
  "cal_sums x y =
     fold (\<lambda>i (sumx, sumy, sumxy, sumx2).
             (fadd sumx (x ! i), fadd sumy (y ! i),
              fadd sumxy (fmul (x ! i) (y ! i)), fadd sumx2 (fmul (x ! i) (x ! i))))
          [0..<3] (0.0, 0.0, 0.0, 0.0)"

definition fit :: "real list \<Rightarrow> real list \<Rightarrow> real \<times> real" where
  "fit x y =
     (let (sumx, sumy, sumxy, sumx2) = cal_sums x y;
          denom = fsub (fmul 3 sumx2) (fmul sumx sumx)
      in if \<bar>denom\<bar> < 1 / 1000000 then (0.0, 7.0)
         else (let sl = fdiv (fsub (fmul 3 sumxy) (fmul sumx sumy)) denom
               in (sl, fdiv (fsub sumy (fmul sl sumx)) 3)))"

definition computeCalibration :: "state \<Rightarrow> state" where
  "computeCalibration s =
     (let (sl, ic) = fit [cal_V1, cal_V2, cal_V3] [cal_pH1, cal_pH2, cal_pH3]
      in s\<lparr>slope := sl, intercept := ic\<rparr>)"

text \<open>
  The start-up function of the sketch (its name is a reserved word here): stop the pumps,
  zero the filter buffer, compute the calibration.
\<close>

definition setup_sketch :: "state \<Rightarrow> hw_call list \<times> state" where
  "setup_sketch s =
     (let s1 = s\<lparr>maBuffer := fold (\<lambda>i b. b[i := 0.0]) [0..<MA_SIZE] (maBuffer s)\<rparr>
      in ([StopPumps, Delay 500], computeCalibration s1))"

subsection \<open>The control cycle\<close>

text \<open>Lines 132 to 136 of \<^verbatim>\<open>loop\<close>: the linear model and the two clamping tests.\<close>

definition compute_pH :: "state \<Rightarrow> real \<Rightarrow> real" where
  "compute_pH s v =
     (let pH = slope s * v + intercept s;
          pH = (if pH < 0 then 0 else pH);
          pH = (if pH > 14 then 14 else pH)
      in pH)"

text \<open>Line 145: the gap guard, on wrapping 32-bit arithmetic.\<close>

definition allowedToRun :: "ulong \<Rightarrow> state \<Rightarrow> bool" where
  "allowedToRun now s = (now - lastPumpMillis s > minGapBetweenBursts)"

text \<open>Lines 152 to 160.\<close>

definition base_transition :: "real \<Rightarrow> bool \<Rightarrow> state \<Rightarrow> state" where
  "base_transition pH allowed s =
     (if base_active s then
        (if pH \<ge> pH_low_exit then s\<lparr>base_active := False\<rparr> else s)
      else
        (if pH \<le> pH_low_threshold \<and> allowed then s\<lparr>base_active := True\<rparr> else s))"

text \<open>Lines 162 to 170.\<close>

definition acid_transition :: "real \<Rightarrow> bool \<Rightarrow> state \<Rightarrow> state" where
  "acid_transition pH allowed s =
     (if acid_active s then
        (if pH \<le> pH_high_exit then s\<lparr>acid_active := False\<rparr> else s)
      else
        (if pH \<ge> pH_high_threshold \<and> allowed then s\<lparr>acid_active := True\<rparr> else s))"

text \<open>Lines 173 to 179.\<close>

definition resolve_conflict :: "real \<Rightarrow> state \<Rightarrow> state" where
  "resolve_conflict pH s =
     (if base_active s \<and> acid_active s then
        (let devBase = \<bar>pH - 6.5\<bar>; devAcid = \<bar>pH - 7.5\<bar>
         in if devBase \<ge> devAcid then s\<lparr>acid_active := False\<rparr>
            else s\<lparr>base_active := False\<rparr>)
      else s)"

text \<open>Lines 181 to 202: the burst, with the pump type and action that are reported.\<close>

definition dose :: "ulong \<Rightarrow> state \<Rightarrow> (string \<times> string \<times> hw_call list) \<times> state" where
  "dose now s =
     (if base_active s then
        ((''basic'', ''on'', [RunBasicPump, Delay pumpBurstMs, StopPumps]),
         s\<lparr>lastPumpMillis := now, pumpRunning := False, base_active := False\<rparr>)
      else if acid_active s then
        ((''acidic'', ''on'', [RunAcidicPump, Delay pumpBurstMs, StopPumps]),
         s\<lparr>lastPumpMillis := now, pumpRunning := False, acid_active := False\<rparr>)
      else ((''none'', ''off'', []), s))"

text \<open>The flags as they stand after the two transitions, and after the conflict rule.\<close>

definition transitions :: "real \<Rightarrow> ulong \<Rightarrow> state \<Rightarrow> state" where
  "transitions pH now s =
     (let allowed = allowedToRun now s
      in acid_transition pH allowed (base_transition pH allowed s))"

definition arbitrated :: "real \<Rightarrow> ulong \<Rightarrow> state \<Rightarrow> state" where
  "arbitrated pH now s = resolve_conflict pH (transitions pH now s)"

text \<open>Lines 138 to 202: the pump decision of one cycle for a given pH and time.\<close>

definition control :: "real \<Rightarrow> ulong \<Rightarrow> state \<Rightarrow> (string \<times> string \<times> hw_call list) \<times> state" where
  "control pH now s = dose now (arbitrated pH now s)"

text \<open>
  \<^verbatim>\<open>loop\<close>, with the two values it reads from the board as arguments: the result of
  \<^verbatim>\<open>analogRead\<close> and the result of \<^verbatim>\<open>millis\<close>.
\<close>

definition loop :: "int \<Rightarrow> ulong \<Rightarrow> state \<Rightarrow> telemetry \<times> state" where
  "loop raw now s =
     (let rawV = readVoltage raw;
          (v, s1) = applyMA rawV s;
          pH = compute_pH s1 v;
          ((ptype, paction, calls), s2) = control pH now s1
      in (\<lparr> out_pH = pH, out_voltage = v, pumpType = ptype, pumpAction = paction,
             hw_calls = calls @ [Delay 800] \<rparr>, s2))"

text \<open>The states the sketch can be in at the start of a cycle.\<close>

inductive reachable :: "state \<Rightarrow> bool" where
  after_setup: "reachable (snd (setup_sketch init_state))"
| after_loop: "reachable s \<Longrightarrow> reachable (snd (loop raw now s))"

text \<open>A run of the sketch over the successive board readings, with the line of each cycle.\<close>

fun run :: "(int \<times> ulong) list \<Rightarrow> state \<Rightarrow> telemetry list \<times> state" where
  "run [] s = ([], s)"
| "run ((raw, now) # rest) s =
     (let (t, s1) = loop raw now s; (ts, s2) = run rest s1 in (t # ts, s2))"

text \<open>The filter alone: the state after pushing a list of samples, oldest first.\<close>

definition pushes :: "real list \<Rightarrow> state \<Rightarrow> state" where
  "pushes vs s = fold (\<lambda>v st. snd (applyMA v st)) vs s"

text \<open>A filter state whose buffer has \<^verbatim>\<open>MA_SIZE\<close> slots and whose cursor and count are in range.\<close>

definition filter_ok :: "state \<Rightarrow> bool" where
  "filter_ok s = (length (maBuffer s) = MA_SIZE \<and> maIndex s < MA_SIZE \<and> maCount s \<le> MA_SIZE)"

text \<open>
  The state and the pH with which \<^verbatim>\<open>loop\<close> takes its pump decision: the state after
  the filter has stored the new sample, and the clamped pH of the filtered voltage.
\<close>

definition cycle_state :: "int \<Rightarrow> state \<Rightarrow> state" where
  "cycle_state raw s = snd (applyMA (readVoltage raw) s)"

definition cycle_pH :: "int \<Rightarrow> state \<Rightarrow> real" where
  "cycle_pH raw s = compute_pH (cycle_state raw s) (fst (applyMA (readVoltage raw) s))"


section \<open>Properties\<close>

subsection \<open>Binary32 rounding\<close>

lemma expo_bounds:
  assumes "x \<noteq> 0"
  shows "2 powi expo x \<le> \<bar>x\<bar>" and "\<bar>x\<bar> < 2 powi (expo x + 1)"
proof -
  have "2 powi expo x \<le> \<bar>x\<bar> \<and> \<bar>x\<bar> < 2 powi (expo x + 1)"
  proof (cases "1 \<le> \<bar>x\<bar>")
    case True
    define n where "n = \<lfloor>\<bar>x\<bar>\<rfloor>"
    have n: "0 < n" using True by (simp add: n_def)
    have b: "1 \<le> bitlen n" using n by (simp add: bitlen_alt_def)
    have e: "expo x = bitlen n - 1" using True by (simp add: expo_def n_def)
    from bitlen_bounds [OF n]
    have lo: "(2::int) ^ nat (bitlen n - 1) \<le> n" and hi: "n + 1 \<le> (2::int) ^ nat (bitlen n)"
      by simp_all
    have "real_of_int ((2::int) ^ nat (bitlen n - 1)) \<le> real_of_int n"
      using lo by (simp only: of_int_le_iff)
    then have "(2::real) ^ nat (bitlen n - 1) \<le> real_of_int n" by simp
    moreover have "real_of_int n \<le> \<bar>x\<bar>" by (simp add: n_def)
    ultimately have "(2::real) ^ nat (bitlen n - 1) \<le> \<bar>x\<bar>" by linarith
    then have 1: "2 powi (bitlen n - 1) \<le> \<bar>x\<bar>"
      using b by (simp add: power_int_nonneg_exp)
    have "real_of_int (n + 1) \<le> real_of_int ((2::int) ^ nat (bitlen n))"
      using hi by (simp only: of_int_le_iff)
    then have "real_of_int n + 1 \<le> (2::real) ^ nat (bitlen n)" by simp
    moreover have "\<bar>x\<bar> < real_of_int n + 1" by (simp add: n_def)
    ultimately have "\<bar>x\<bar> < (2::real) ^ nat (bitlen n)" by linarith
    then have 2: "\<bar>x\<bar> < 2 powi (bitlen n)"
      using b by (simp add: power_int_nonneg_exp)
    show ?thesis using 1 2 by (simp add: e)
  next
    case False
    define y where "y = 1 / \<bar>x\<bar>"
    define m where "m = \<lceil>y\<rceil> - 1"
    have x: "0 < \<bar>x\<bar>" "\<bar>x\<bar> < 1" using assms False by simp_all
    have y: "1 < y" using x by (simp add: y_def)
    have m: "0 < m" using y by (simp add: m_def less_ceiling_iff)
    have b: "1 \<le> bitlen m" using m by (simp add: bitlen_alt_def)
    have e: "expo x = - bitlen m" using False by (simp add: expo_def m_def y_def)
    from bitlen_bounds [OF m]
    have lo: "(2::int) ^ nat (bitlen m - 1) \<le> m" and hi: "m + 1 \<le> (2::int) ^ nat (bitlen m)"
      by simp_all
    have "real_of_int (m + 1) \<le> real_of_int ((2::int) ^ nat (bitlen m))"
      using hi by (simp only: of_int_le_iff)
    then have "real_of_int m + 1 \<le> (2::real) ^ nat (bitlen m)" by simp
    moreover have "y \<le> real_of_int m + 1" by (simp add: m_def)
    ultimately have "y \<le> (2::real) ^ nat (bitlen m)" by linarith
    then have "y \<le> 2 powi (bitlen m)"
      using b by (simp add: power_int_nonneg_exp)
    then have 1: "2 powi (- bitlen m) \<le> \<bar>x\<bar>"
      using x by (simp add: y_def power_int_minus field_simps)
    have "real_of_int ((2::int) ^ nat (bitlen m - 1)) \<le> real_of_int m"
      using lo by (simp only: of_int_le_iff)
    then have "(2::real) ^ nat (bitlen m - 1) \<le> real_of_int m" by simp
    moreover have "real_of_int m < y" unfolding m_def by simp linarith
    ultimately have "(2::real) ^ nat (bitlen m - 1) < y" by linarith
    then have "2 powi (bitlen m - 1) < y"
      using b by (simp add: power_int_nonneg_exp)
    moreover have "(2::real) powi (- bitlen m + 1) = 1 / 2 powi (bitlen m - 1)"
      by (simp add: power_int_minus_divide [symmetric])
    ultimately have "\<bar>x\<bar> < 1 / 2 powi (bitlen m - 1) \<and> (2::real) powi (- bitlen m + 1) = 1 / 2 powi (bitlen m - 1)"
      using x by (simp add: y_def field_simps)
    then have 2: "\<bar>x\<bar> < 2 powi (- bitlen m + 1)"
      by (simp only:)
    show ?thesis using 1 2 by (simp add: e)
  qed
  then show "2 powi expo x \<le> \<bar>x\<bar>" and "\<bar>x\<bar> < 2 powi (expo x + 1)" by simp_all
qed

lemma expo_unique:
  assumes "2 powi e \<le> \<bar>x\<bar>" "\<bar>x\<bar> < 2 powi (e + 1)"
  shows "expo x = e"
proof -
  have "(0::real) < 2 powi e" by simp
  with assms(1) have "0 < \<bar>x\<bar>" by linarith
  then have x: "x \<noteq> 0" by simp
  note b = expo_bounds [OF x]
  have lt: "i < j" if "(2::real) powi i < 2 powi j" for i j :: int
  proof (rule ccontr)
    assume "\<not> i < j"
    then have "j \<le> i" by simp
    then have "(2::real) powi j \<le> 2 powi i" by (rule power_int_increasing) simp
    with that show False by linarith
  qed
  have "(2::real) powi e < 2 powi (expo x + 1)" using assms(1) b(2) by linarith
  then have 1: "e < expo x + 1" by (rule lt)
  have "(2::real) powi expo x < 2 powi (e + 1)" using assms(2) b(1) by linarith
  then have 2: "expo x < e + 1" by (rule lt)
  show ?thesis using 1 2 by simp
qed

lemma rne_err: "\<bar>real_of_int (rne r) - r\<bar> \<le> 1 / 2"
proof -
  have "0 \<le> r - real_of_int \<lfloor>r\<rfloor>" "r - real_of_int \<lfloor>r\<rfloor> < 1" by linarith+
  then show ?thesis by (auto simp add: rne_def Let_def)
qed

lemma rne_int: "rne (real_of_int n) = n"
  by (simp add: rne_def)

lemma fl_at:
  assumes "2 powi e \<le> \<bar>x\<bar>" "\<bar>x\<bar> < 2 powi (e + 1)" "- 126 \<le> e"
  shows "fl x = real_of_int (rne (x / 2 powi (e - 23))) * 2 powi (e - 23)"
proof -
  have "(0::real) < 2 powi e" by simp
  with assms(1) have "0 < \<bar>x\<bar>" by linarith
  then have x: "x \<noteq> 0" by simp
  show ?thesis
    using x assms(3) by (simp add: fl_def expo_unique [OF assms(1,2)] max_def Let_def)
qed

lemma fl_err:
  "\<bar>fl x - x\<bar> \<le> \<bar>x\<bar> / 2 ^ 24 + 1 / 2 ^ 150"
proof (cases "x = 0")
  case True
  then show ?thesis by (simp add: fl_def)
next
  case False
  define e where "e = max (expo x) (- 126)"
  define q :: real where "q = 2 powi (e - 23)"
  have q: "0 < q" by (simp add: q_def)
  have f: "fl x = real_of_int (rne (x / q)) * q"
    using False by (simp add: fl_def e_def q_def Let_def)
  have "fl x - x = (real_of_int (rne (x / q)) - x / q) * q"
    using q by (simp add: f field_simps)
  then have "\<bar>fl x - x\<bar> = \<bar>real_of_int (rne (x / q)) - x / q\<bar> * q"
    using q by (simp add: abs_mult)
  also have "\<dots> \<le> 1 / 2 * q"
    using q rne_err [of "x / q"] by (intro mult_right_mono) simp_all
  finally have h: "\<bar>fl x - x\<bar> \<le> q / 2" by simp
  show ?thesis
  proof (cases "- 126 \<le> expo x")
    case True
    then have "q = 2 powi expo x / 2 ^ 23"
      by (simp add: q_def e_def power_int_diff)
    also have "\<dots> \<le> \<bar>x\<bar> / 2 ^ 23"
      using expo_bounds(1) [OF False] by (simp add: divide_right_mono)
    finally have "q / 2 \<le> \<bar>x\<bar> / 2 ^ 24" by simp
    with h show ?thesis by simp
  next
    case False
    then have "q = 2 powi (- 149)" by (simp add: q_def e_def)
    then have "q / 2 = 1 / 2 ^ 150" by (simp add: power_int_minus_divide)
    with h have "\<bar>fl x - x\<bar> \<le> 1 / 2 ^ 150" by simp
    moreover have "0 \<le> \<bar>x\<bar> / 2 ^ 24" by simp
    ultimately show ?thesis by linarith
  qed
qed

lemma fl_0: "fl 0 = 0"
  by (simp add: fl_def)

text \<open>Rounding a given number: one instance of \<open>fl_at\<close> for each binary exponent in use.\<close>

lemmas fl_eval = fl_0 rne_def Let_def
  fl_at [where e = "- 20"] fl_at [where e = "- 19"] fl_at [where e = "- 18"]
  fl_at [where e = "- 17"] fl_at [where e = "- 16"] fl_at [where e = "- 15"]
  fl_at [where e = "- 14"] fl_at [where e = "- 13"] fl_at [where e = "- 12"]
  fl_at [where e = "- 11"] fl_at [where e = "- 10"] fl_at [where e = "- 9"]
  fl_at [where e = "- 8"] fl_at [where e = "- 7"] fl_at [where e = "- 6"]
  fl_at [where e = "- 5"] fl_at [where e = "- 4"] fl_at [where e = "- 3"]
  fl_at [where e = "- 2"] fl_at [where e = "- 1"] fl_at [where e = 0]
  fl_at [where e = 1] fl_at [where e = 2] fl_at [where e = 3] fl_at [where e = 4]
  fl_at [where e = 5] fl_at [where e = 6] fl_at [where e = 7] fl_at [where e = 8]
  fl_at [where e = 9] fl_at [where e = 10] fl_at [where e = 11] fl_at [where e = 12]

lemmas fops = fadd_def fsub_def fmul_def fdiv_def

subsection \<open>Start-up state\<close>

lemmas thresholds = pH_low_threshold_def pH_low_exit_def pH_high_threshold_def pH_high_exit_def

lemma cal_values:
  "cal_V1 = 7549747 / 2097152" "cal_V2 = 6304039 / 2097152" "cal_V3 = 12297699 / 8388608"
  "cal_pH1 = 4" "cal_pH2 = 7" "cal_pH3 = 10"
  by (simp_all add: cal_V1_def cal_V2_def cal_V3_def cal_pH1_def cal_pH2_def cal_pH3_def fops fl_eval)

lemma cal_sums_eq:
  "cal_sums [x0, x1, x2] [y0, y1, y2] =
     (fadd (fadd (fadd 0 x0) x1) x2, fadd (fadd (fadd 0 y0) y1) y2,
      fadd (fadd (fadd 0 (fmul x0 y0)) (fmul x1 y1)) (fmul x2 y2),
      fadd (fadd (fadd 0 (fmul x0 x0)) (fmul x1 x1)) (fmul x2 x2))"
  by (simp add: cal_sums_def upt_rec numeral_3_eq_3)

lemma fit_steps:
  assumes "cal_sums x y = (sx, sy, sxy, sxx)"
    and "fsub (fmul 3 sxx) (fmul sx sx) = d"
    and "\<not> \<bar>d\<bar> < 1 / 1000000"
    and "fdiv (fsub (fmul 3 sxy) (fmul sx sy)) d = sl"
    and "fdiv (fsub sy (fmul sl sx)) 3 = ic"
  shows "fit x y = (sl, ic)"
  using assms by (simp add: fit_def Let_def)

lemma fit_fallback_steps:
  assumes "cal_sums x y = (sx, sy, sxy, sxx)"
    and "fsub (fmul 3 sxx) (fmul sx sx) = d"
    and "\<bar>d\<bar> < 1 / 1000000"
  shows "fit x y = (0, 7)"
  using assms by (simp add: fit_def Let_def)

lemma fit_cal:
  "fit [cal_V1, cal_V2, cal_V3] [cal_pH1, cal_pH2, cal_pH3] = (- (2766945 / 1048576), 14784957 / 1048576)"
proof -
  have s: "cal_sums [cal_V1, cal_V2, cal_V3] [cal_pH1, cal_pH2, cal_pH3]
      = (8464105 / 1048576, 21, 13133939 / 262144, 12659035 / 524288)"
    by (simp add: cal_sums_eq cal_values fops fl_eval)
  have d: "fsub (fmul 3 (12659035 / 524288)) (fmul (8464105 / 1048576) (8464105 / 1048576)) = 953995 / 131072"
    by (simp add: fops fl_eval)
  have nd: "\<not> \<bar>953995 / 131072 :: real\<bar> < 1 / 1000000" by simp
  have sl: "fdiv (fsub (fmul 3 (13133939 / 262144)) (fmul (8464105 / 1048576) (21))) (953995 / 131072) = - (2766945 / 1048576)"
    by (simp add: fops fl_eval)
  have ic: "fdiv (fsub (21) (fmul (- (2766945 / 1048576)) (8464105 / 1048576))) 3 = 14784957 / 1048576"
    by (simp add: fops fl_eval)
  show ?thesis by (rule fit_steps [OF s d nd sl ic])
qed

lemma zero_buffer:
  "fold (\<lambda>i b. b[i := 0]) [0..<MA_SIZE] (replicate MA_SIZE (0::real)) = replicate MA_SIZE 0"
  by (simp add: MA_SIZE_def upt_rec numeral_eq_Suc)

lemma setup_state:
  "snd (setup_sketch init_state) =
     \<lparr> maBuffer = replicate MA_SIZE 0, maIndex = 0, maCount = 0, lastPumpMillis = 0,
       pumpRunning = False, slope = - (2766945 / 1048576), intercept = 14784957 / 1048576,
       base_active = False, acid_active = False \<rparr>"
  by (simp add: setup_sketch_def init_state_def zero_buffer computeCalibration_def fit_cal)

lemma setup_fields:
  "maBuffer (snd (setup_sketch init_state)) = replicate MA_SIZE 0"
  "maIndex (snd (setup_sketch init_state)) = 0"
  "maCount (snd (setup_sketch init_state)) = 0"
  "lastPumpMillis (snd (setup_sketch init_state)) = 0"
  "slope (snd (setup_sketch init_state)) = - (2766945 / 1048576)"
  "intercept (snd (setup_sketch init_state)) = 14784957 / 1048576"
  "base_active (snd (setup_sketch init_state)) = False"
  "acid_active (snd (setup_sketch init_state)) = False"
  by (simp_all add: setup_state)

subsection \<open>The pump decision\<close>

lemma resolve_conflict_excl:
  "\<not> (base_active (resolve_conflict pH s) \<and> acid_active (resolve_conflict pH s))"
  by (auto simp add: resolve_conflict_def Let_def)

lemma dose_flags:
  "base_active (snd (dose now s)) = False"
  "acid_active (snd (dose now s)) = (base_active s \<and> acid_active s)"
  by (simp_all add: dose_def)

lemma control_flags_clear:
  "\<not> base_active (snd (control pH now s)) \<and> \<not> acid_active (snd (control pH now s))"
  using resolve_conflict_excl [of pH "transitions pH now s"]
  by (simp add: control_def arbitrated_def dose_flags)

lemma applyMA_keeps:
  "base_active (snd (applyMA v s)) = base_active s"
  "acid_active (snd (applyMA v s)) = acid_active s"
  "lastPumpMillis (snd (applyMA v s)) = lastPumpMillis s"
  "slope (snd (applyMA v s)) = slope s"
  "intercept (snd (applyMA v s)) = intercept s"
  by (simp_all add: applyMA_def Let_def)

lemma loop_unfold:
  "loop raw now s =
     (\<lparr> out_pH = cycle_pH raw s, out_voltage = fst (applyMA (readVoltage raw) s),
        pumpType = fst (fst (control (cycle_pH raw s) now (cycle_state raw s))),
        pumpAction = fst (snd (fst (control (cycle_pH raw s) now (cycle_state raw s)))),
        hw_calls = snd (snd (fst (control (cycle_pH raw s) now (cycle_state raw s)))) @ [Delay 800] \<rparr>,
      snd (control (cycle_pH raw s) now (cycle_state raw s)))"
  by (simp add: loop_def cycle_pH_def cycle_state_def Let_def split: prod.splits)

lemma loop_flags_clear:
  "\<not> base_active (snd (loop raw now s)) \<and> \<not> acid_active (snd (loop raw now s))"
  unfolding loop_unfold snd_conv by (rule control_flags_clear)

lemma reachable_flags: "reachable s \<Longrightarrow> \<not> base_active s \<and> \<not> acid_active s"
  by (induction rule: reachable.induct) (simp_all add: setup_state loop_flags_clear)

text \<open>
  C1. A flag that is false on entry is set by the two transitions only when the gap guard
  holds, and the guard is the strict comparison of the wrapped difference with 10000 ms.
  With the guard false, a pH at or below 6.45 leaves the base flag false and a pH at or
  above 7.55 leaves the acid flag false. A flag that is true on entry is cleared or kept
  by the pH alone, whatever the guard says.
\<close>

theorem gap_guard_gates_entry_only:
  "allowedToRun now s = (10000 < unat (now - lastPumpMillis s))
 \<and> (\<not> base_active s \<and> base_active (transitions pH now s) \<longrightarrow> allowedToRun now s)
 \<and> (\<not> acid_active s \<and> acid_active (transitions pH now s) \<longrightarrow> allowedToRun now s)
 \<and> (\<not> allowedToRun now s \<and> \<not> base_active s \<and> pH \<le> pH_low_threshold
       \<longrightarrow> \<not> base_active (transitions pH now s))
 \<and> (\<not> allowedToRun now s \<and> \<not> acid_active s \<and> pH \<ge> pH_high_threshold
       \<longrightarrow> \<not> acid_active (transitions pH now s))
 \<and> (base_active s \<longrightarrow> base_active (transitions pH now s) = (pH < pH_low_exit))
 \<and> (acid_active s \<longrightarrow> acid_active (transitions pH now s) = (pH > pH_high_exit))"
  by (simp add: transitions_def base_transition_def acid_transition_def allowedToRun_def
      minGapBetweenBursts_def Let_def word_less_nat_alt not_le)

theorem gap_guard_gates_entry_only_witness:
  "\<not> allowedToRun 10000 (snd (setup_sketch init_state))
 \<and> \<not> base_active (snd (setup_sketch init_state))
 \<and> (6::real) \<le> pH_low_threshold
 \<and> \<not> base_active (transitions 6 10000 (snd (setup_sketch init_state)))
 \<and> \<not> acid_active (snd (setup_sketch init_state))
 \<and> (8::real) \<ge> pH_high_threshold
 \<and> \<not> acid_active (transitions 8 10000 (snd (setup_sketch init_state)))
 \<and> base_active (snd (setup_sketch init_state)\<lparr>base_active := True\<rparr>)
 \<and> \<not> base_active (transitions 6.8 10000 (snd (setup_sketch init_state)\<lparr>base_active := True\<rparr>))
 \<and> acid_active (snd (setup_sketch init_state)\<lparr>acid_active := True\<rparr>)
 \<and> \<not> acid_active (transitions 7.2 10000 (snd (setup_sketch init_state)\<lparr>acid_active := True\<rparr>))"
  using gap_guard_gates_entry_only [of 10000 "snd (setup_sketch init_state)" 6]
    gap_guard_gates_entry_only [of 10000 "snd (setup_sketch init_state)" 8]
    gap_guard_gates_entry_only [of 10000 "snd (setup_sketch init_state)\<lparr>base_active := True\<rparr>" "6.8"]
    gap_guard_gates_entry_only [of 10000 "snd (setup_sketch init_state)\<lparr>acid_active := True\<rparr>" "7.2"]
  by (simp add: setup_state thresholds)

text \<open>
  C2. After the conflict rule at most one flag is true. When both were true, the base
  flag is kept if its deviation \<open>\<bar>pH - 6.5\<bar>\<close> is at least the acid deviation
  \<open>\<bar>pH - 7.5\<bar>\<close> (the larger one, or a tie), and the acid flag otherwise; at pH 6.9 the
  acid flag is kept and the base flag cleared.
\<close>

theorem conflict_resolution_keeps_larger_deviation:
  "\<not> (base_active (resolve_conflict pH s) \<and> acid_active (resolve_conflict pH s))
 \<and> (base_active s \<and> acid_active s \<and> \<bar>pH - 6.5\<bar> > \<bar>pH - 7.5\<bar>
       \<longrightarrow> base_active (resolve_conflict pH s) \<and> \<not> acid_active (resolve_conflict pH s))
 \<and> (base_active s \<and> acid_active s \<and> \<bar>pH - 6.5\<bar> = \<bar>pH - 7.5\<bar>
       \<longrightarrow> base_active (resolve_conflict pH s) \<and> \<not> acid_active (resolve_conflict pH s))
 \<and> (base_active s \<and> acid_active s \<and> \<bar>pH - 6.5\<bar> < \<bar>pH - 7.5\<bar>
       \<longrightarrow> acid_active (resolve_conflict pH s) \<and> \<not> base_active (resolve_conflict pH s))
 \<and> (base_active s \<and> acid_active s \<and> pH = 6.9
       \<longrightarrow> acid_active (resolve_conflict pH s) \<and> \<not> base_active (resolve_conflict pH s))"
  by (auto simp add: resolve_conflict_def Let_def)

theorem conflict_resolution_keeps_larger_deviation_witness:
  "base_active (init_state\<lparr>base_active := True, acid_active := True\<rparr>)
 \<and> acid_active (init_state\<lparr>base_active := True, acid_active := True\<rparr>)
 \<and> \<bar>(7.2::real) - 6.5\<bar> > \<bar>7.2 - 7.5\<bar>
 \<and> base_active (resolve_conflict 7.2 (init_state\<lparr>base_active := True, acid_active := True\<rparr>))
 \<and> \<not> acid_active (resolve_conflict 7.2 (init_state\<lparr>base_active := True, acid_active := True\<rparr>))
 \<and> \<bar>(7::real) - 6.5\<bar> = \<bar>7 - 7.5\<bar>
 \<and> base_active (resolve_conflict 7 (init_state\<lparr>base_active := True, acid_active := True\<rparr>))
 \<and> \<not> acid_active (resolve_conflict 7 (init_state\<lparr>base_active := True, acid_active := True\<rparr>))
 \<and> \<bar>(6.9::real) - 6.5\<bar> < \<bar>6.9 - 7.5\<bar>
 \<and> acid_active (resolve_conflict 6.9 (init_state\<lparr>base_active := True, acid_active := True\<rparr>))
 \<and> \<not> base_active (resolve_conflict 6.9 (init_state\<lparr>base_active := True, acid_active := True\<rparr>))"
  using conflict_resolution_keeps_larger_deviation
      [of "7.2" "init_state\<lparr>base_active := True, acid_active := True\<rparr>"]
    conflict_resolution_keeps_larger_deviation
      [of 7 "init_state\<lparr>base_active := True, acid_active := True\<rparr>"]
    conflict_resolution_keeps_larger_deviation
      [of "6.9" "init_state\<lparr>base_active := True, acid_active := True\<rparr>"]
  by simp

text \<open>
  C3, as the code has it. With the guard open, a pH at or below 6.45 makes the base flag
  true in the transition step and the base burst fires in that cycle. The transition step
  keeps a base flag that is already true for every pH below 6.7 and clears it from 6.7 on.
  The burst clears the flag before the cycle ends, so it is false when the next cycle
  starts: the flag is not held from one cycle to the next.
\<close>

theorem base_flag_one_shot:
  "(pH \<le> pH_low_threshold \<and> allowedToRun now s \<longrightarrow>
      base_active (transitions pH now s)
    \<and> fst (control pH now s) = (''basic'', ''on'', [RunBasicPump, Delay pumpBurstMs, StopPumps]))
 \<and> (base_active s \<and> pH < pH_low_exit \<longrightarrow> base_active (transitions pH now s))
 \<and> (base_active s \<and> pH \<ge> pH_low_exit \<longrightarrow> \<not> base_active (transitions pH now s))
 \<and> \<not> base_active (snd (control pH now s))"
proof -
  have "base_active (transitions pH now s) \<and> \<not> acid_active (transitions pH now s)"
    if "pH \<le> pH_low_threshold" "allowedToRun now s"
    using that
    by (simp add: transitions_def base_transition_def acid_transition_def Let_def thresholds)
  then have "pH \<le> pH_low_threshold \<and> allowedToRun now s \<longrightarrow>
      base_active (transitions pH now s)
    \<and> fst (control pH now s) = (''basic'', ''on'', [RunBasicPump, Delay pumpBurstMs, StopPumps])"
    by (simp add: control_def arbitrated_def resolve_conflict_def dose_def)
  moreover have "base_active s \<longrightarrow> base_active (transitions pH now s) = (pH < pH_low_exit)"
    by (simp add: transitions_def base_transition_def acid_transition_def Let_def not_le)
  ultimately show ?thesis
    using control_flags_clear [of pH now s] by auto
qed

theorem base_flag_one_shot_witness:
  "(6.4::real) \<le> pH_low_threshold \<and> allowedToRun 10001 (snd (setup_sketch init_state))
 \<and> base_active (transitions 6.4 10001 (snd (setup_sketch init_state)))
 \<and> fst (control 6.4 10001 (snd (setup_sketch init_state)))
      = (''basic'', ''on'', [RunBasicPump, Delay pumpBurstMs, StopPumps])
 \<and> \<not> base_active (snd (control 6.4 10001 (snd (setup_sketch init_state))))
 \<and> base_active (init_state\<lparr>base_active := True\<rparr>) \<and> (6.5::real) < pH_low_exit
 \<and> base_active (transitions 6.5 10001 (init_state\<lparr>base_active := True\<rparr>))
 \<and> (6.7::real) \<ge> pH_low_exit
 \<and> \<not> base_active (transitions 6.7 10001 (init_state\<lparr>base_active := True\<rparr>))"
  using base_flag_one_shot [of "6.4" 10001 "snd (setup_sketch init_state)"]
    base_flag_one_shot [of "6.5" 10001 "init_state\<lparr>base_active := True\<rparr>"]
    base_flag_one_shot [of "6.7" 10001 "init_state\<lparr>base_active := True\<rparr>"]
  by (simp add: setup_state thresholds allowedToRun_def minGapBetweenBursts_def)

text \<open>
  C3, as stated, fails. From the start-up state a cycle at time 10001 ms with pH 6.4 has
  the guard open and sets the base flag; the flag is false again when that cycle ends,
  and the next cycle, at time 12001 ms with pH 6.5 (below 6.7, and no pH of 6.7 or more
  has been seen), leaves it false.
\<close>

theorem base_flag_not_held_across_cycles:
  "(6.4::real) \<le> pH_low_threshold
 \<and> allowedToRun 10001 (snd (setup_sketch init_state))
 \<and> base_active (transitions 6.4 10001 (snd (setup_sketch init_state)))
 \<and> (6.5::real) < pH_low_exit
 \<and> \<not> base_active (snd (control 6.4 10001 (snd (setup_sketch init_state))))
 \<and> \<not> base_active (transitions 6.5 12001 (snd (control 6.4 10001 (snd (setup_sketch init_state)))))
 \<and> \<not> base_active (snd (control 6.5 12001 (snd (control 6.4 10001 (snd (setup_sketch init_state))))))"
  by (simp add: setup_state transitions_def arbitrated_def control_def dose_def
      resolve_conflict_def base_transition_def acid_transition_def Let_def thresholds
      allowedToRun_def minGapBetweenBursts_def)

text \<open>
  C4. When the base flag is true after arbitration, the cycle reports pump \<open>basic\<close> with
  action \<open>on\<close>, runs the basic pump for \<^verbatim>\<open>pumpBurstMs\<close> and stops it, sets
  \<^verbatim>\<open>lastPumpMillis\<close> to the cycle's \<^verbatim>\<open>now\<close>, and ends with the base flag false. When
  it is false and the acid flag is true, the same holds for the acidic pump and the acid
  flag.
\<close>

theorem dose_postcondition:
  "(base_active (arbitrated (cycle_pH raw s) now (cycle_state raw s)) \<longrightarrow>
      pumpType (fst (loop raw now s)) = ''basic''
    \<and> pumpAction (fst (loop raw now s)) = ''on''
    \<and> hw_calls (fst (loop raw now s)) = [RunBasicPump, Delay pumpBurstMs, StopPumps, Delay 800]
    \<and> lastPumpMillis (snd (loop raw now s)) = now
    \<and> \<not> base_active (snd (loop raw now s)))
 \<and> (\<not> base_active (arbitrated (cycle_pH raw s) now (cycle_state raw s))
    \<and> acid_active (arbitrated (cycle_pH raw s) now (cycle_state raw s)) \<longrightarrow>
      pumpType (fst (loop raw now s)) = ''acidic''
    \<and> pumpAction (fst (loop raw now s)) = ''on''
    \<and> hw_calls (fst (loop raw now s)) = [RunAcidicPump, Delay pumpBurstMs, StopPumps, Delay 800]
    \<and> lastPumpMillis (snd (loop raw now s)) = now
    \<and> \<not> acid_active (snd (loop raw now s)))"
  unfolding loop_unfold by (simp add: control_def dose_def)

lemma first_reading:
  "readVoltage 600 = 3075003 / 1048576" "readVoltage 300 = 3075003 / 2097152"
  by (simp_all add: readVoltage_def fops fl_eval)

lemma first_average:
  "fst (applyMA v (snd (setup_sketch init_state))) = fdiv (fadd 0 v) 1"
  by (simp add: applyMA_def setup_fields MA_SIZE_def Let_def)

lemma first_cycle_pH:
  "cycle_pH 600 (snd (setup_sketch init_state)) = 6994786895397 / 1099511627776"
  "cycle_pH 300 (snd (setup_sketch init_state)) = 22497937966629 / 2199023255552"
  by (simp_all add: cycle_pH_def cycle_state_def compute_pH_def applyMA_keeps setup_fields
      first_reading first_average fops fl_eval)

lemma first_cycle_low:
  "base_active (arbitrated (cycle_pH 600 (snd (setup_sketch init_state))) 10001
      (cycle_state 600 (snd (setup_sketch init_state))))"
  by (simp add: first_cycle_pH cycle_state_def applyMA_keeps setup_fields
      arbitrated_def transitions_def resolve_conflict_def base_transition_def
      acid_transition_def thresholds allowedToRun_def minGapBetweenBursts_def Let_def)

lemma first_cycle_high:
  "\<not> base_active (arbitrated (cycle_pH 300 (snd (setup_sketch init_state))) 10001
      (cycle_state 300 (snd (setup_sketch init_state))))
 \<and> acid_active (arbitrated (cycle_pH 300 (snd (setup_sketch init_state))) 10001
      (cycle_state 300 (snd (setup_sketch init_state))))"
  by (simp add: first_cycle_pH cycle_state_def applyMA_keeps setup_fields
      arbitrated_def transitions_def resolve_conflict_def base_transition_def
      acid_transition_def thresholds allowedToRun_def minGapBetweenBursts_def Let_def)

theorem dose_postcondition_witness:
  "base_active (arbitrated (cycle_pH 600 (snd (setup_sketch init_state))) 10001
      (cycle_state 600 (snd (setup_sketch init_state))))
 \<and> pumpType (fst (loop 600 10001 (snd (setup_sketch init_state)))) = ''basic''
 \<and> pumpAction (fst (loop 600 10001 (snd (setup_sketch init_state)))) = ''on''
 \<and> lastPumpMillis (snd (loop 600 10001 (snd (setup_sketch init_state)))) = 10001
 \<and> \<not> base_active (snd (loop 600 10001 (snd (setup_sketch init_state))))
 \<and> \<not> base_active (arbitrated (cycle_pH 300 (snd (setup_sketch init_state))) 10001
      (cycle_state 300 (snd (setup_sketch init_state))))
 \<and> acid_active (arbitrated (cycle_pH 300 (snd (setup_sketch init_state))) 10001
      (cycle_state 300 (snd (setup_sketch init_state))))
 \<and> pumpType (fst (loop 300 10001 (snd (setup_sketch init_state)))) = ''acidic''
 \<and> pumpAction (fst (loop 300 10001 (snd (setup_sketch init_state)))) = ''on''
 \<and> lastPumpMillis (snd (loop 300 10001 (snd (setup_sketch init_state)))) = 10001
 \<and> \<not> acid_active (snd (loop 300 10001 (snd (setup_sketch init_state))))"
  using dose_postcondition [of 600 "snd (setup_sketch init_state)" 10001]
    dose_postcondition [of 300 "snd (setup_sketch init_state)" 10001]
    first_cycle_low first_cycle_high
  by blast

text \<open>
  C9. At the start of every cycle of a run both flags are false. So in that cycle the
  test \<^verbatim>\<open>if (base_active)\<close> that guards the base exit branch is false, the test
  \<^verbatim>\<open>if (acid_active)\<close> that guards the acid exit branch is false, and the two flags are
  never both true when the conflict test is made, whatever the reading and the time.
\<close>

theorem flags_false_at_cycle_start:
  "reachable s \<Longrightarrow>
     \<not> base_active s \<and> \<not> acid_active s
   \<and> \<not> base_active (cycle_state raw s)
   \<and> \<not> acid_active (base_transition pH (allowedToRun now (cycle_state raw s)) (cycle_state raw s))
   \<and> \<not> (base_active (transitions pH now (cycle_state raw s))
        \<and> acid_active (transitions pH now (cycle_state raw s)))"
proof -
  assume "reachable s"
  then have f: "\<not> base_active (cycle_state raw s)" "\<not> acid_active (cycle_state raw s)"
    using reachable_flags [of s] by (simp_all add: cycle_state_def applyMA_keeps)
  then show ?thesis
    by (simp add: cycle_state_def applyMA_keeps transitions_def base_transition_def
        acid_transition_def Let_def thresholds)
qed

theorem flags_false_at_cycle_start_witness:
  "reachable (snd (loop 600 10001 (snd (setup_sketch init_state))))
 \<and> \<not> base_active (snd (loop 600 10001 (snd (setup_sketch init_state))))
 \<and> \<not> acid_active (snd (loop 600 10001 (snd (setup_sketch init_state))))
 \<and> \<not> base_active (cycle_state 650 (snd (loop 600 10001 (snd (setup_sketch init_state)))))
 \<and> \<not> acid_active (base_transition 6.8
        (allowedToRun 30000 (cycle_state 650 (snd (loop 600 10001 (snd (setup_sketch init_state))))))
        (cycle_state 650 (snd (loop 600 10001 (snd (setup_sketch init_state))))))
 \<and> \<not> (base_active (transitions 6.8 30000
           (cycle_state 650 (snd (loop 600 10001 (snd (setup_sketch init_state))))))
      \<and> acid_active (transitions 6.8 30000
           (cycle_state 650 (snd (loop 600 10001 (snd (setup_sketch init_state)))))))"
  using flags_false_at_cycle_start
    [OF after_loop [OF after_setup, of 600 10001], of 650 "6.8" 30000]
  by (simp add: after_loop [OF after_setup])

subsection \<open>The first ten seconds\<close>

lemma quiet_control:
  assumes "lastPumpMillis s = 0" "\<not> base_active s" "\<not> acid_active s"
    and "now \<le> minGapBetweenBursts"
  shows "control pH now s = ((''none'', ''off'', []), s)"
proof -
  have "\<not> allowedToRun now s"
    using assms(1,4) by (simp add: allowedToRun_def not_less)
  then have "transitions pH now s = s"
    using assms(2,3) by (simp add: transitions_def base_transition_def acid_transition_def)
  then show ?thesis
    using assms(2,3) by (simp add: control_def arbitrated_def resolve_conflict_def dose_def)
qed

lemma quiet_loop:
  assumes "lastPumpMillis s = 0" "\<not> base_active s" "\<not> acid_active s"
    and "now \<le> minGapBetweenBursts"
  shows "pumpType (fst (loop raw now s)) = ''none''"
    and "pumpAction (fst (loop raw now s)) = ''off''"
    and "hw_calls (fst (loop raw now s)) = [Delay 800]"
    and "lastPumpMillis (snd (loop raw now s)) = 0"
    and "\<not> base_active (snd (loop raw now s))"
    and "\<not> acid_active (snd (loop raw now s))"
proof -
  have "control (cycle_pH raw s) now (cycle_state raw s) = ((''none'', ''off'', []), cycle_state raw s)"
    using assms by (intro quiet_control) (simp_all add: cycle_state_def applyMA_keeps)
  then show "pumpType (fst (loop raw now s)) = ''none''"
    and "pumpAction (fst (loop raw now s)) = ''off''"
    and "hw_calls (fst (loop raw now s)) = [Delay 800]"
    and "lastPumpMillis (snd (loop raw now s)) = 0"
    and "\<not> base_active (snd (loop raw now s))"
    and "\<not> acid_active (snd (loop raw now s))"
    using assms unfolding loop_unfold by (simp_all add: cycle_state_def applyMA_keeps)
qed

lemma run_Cons:
  "run ((raw, now) # rest) s =
     (fst (loop raw now s) # fst (run rest (snd (loop raw now s))),
      snd (run rest (snd (loop raw now s))))"
  by (simp add: Let_def split: prod.splits)

lemma quiet_run:
  "list_all (\<lambda>(raw, now). now \<le> minGapBetweenBursts) inputs \<Longrightarrow>
   lastPumpMillis s = 0 \<Longrightarrow> \<not> base_active s \<Longrightarrow> \<not> acid_active s \<Longrightarrow>
     list_all (\<lambda>t. pumpType t = ''none'' \<and> pumpAction t = ''off'' \<and> hw_calls t = [Delay 800])
       (fst (run inputs s))
   \<and> lastPumpMillis (snd (run inputs s)) = 0"
proof (induction inputs arbitrary: s)
  case Nil
  then show ?case by simp
next
  case (Cons p inputs)
  obtain raw now where p: "p = (raw, now)" by (cases p)
  from Cons.prems(1) p have now: "now \<le> minGapBetweenBursts"
    and rest: "list_all (\<lambda>(raw, now). now \<le> minGapBetweenBursts) inputs"
    by simp_all
  note q = quiet_loop [OF Cons.prems(2-4) now, of raw]
  have "list_all (\<lambda>t. pumpType t = ''none'' \<and> pumpAction t = ''off'' \<and> hw_calls t = [Delay 800])
       (fst (run inputs (snd (loop raw now s))))
   \<and> lastPumpMillis (snd (run inputs (snd (loop raw now s)))) = 0"
    by (rule Cons.IH [OF rest q(4-6)])
  then show ?case
    using q(1-3) unfolding p run_Cons by simp
qed

text \<open>
  C10. \<^verbatim>\<open>lastPumpMillis\<close> starts at 0 and the guard is strict, so in a run from start-up
  whose cycles all read a time of at most \<^verbatim>\<open>minGapBetweenBursts\<close> (10000 ms) every cycle
  reports pump \<open>none\<close> with action \<open>off\<close> and runs no pump, whatever the readings are,
  and \<^verbatim>\<open>lastPumpMillis\<close> is still 0 afterwards.
\<close>

theorem no_dose_in_first_gap:
  "list_all (\<lambda>(raw, now). now \<le> minGapBetweenBursts) inputs \<Longrightarrow>
     list_all (\<lambda>t. pumpType t = ''none'' \<and> pumpAction t = ''off'' \<and> hw_calls t = [Delay 800])
       (fst (run inputs (snd (setup_sketch init_state))))
   \<and> lastPumpMillis (snd (run inputs (snd (setup_sketch init_state)))) = 0"
  by (rule quiet_run) (simp_all add: setup_state)

theorem no_dose_in_first_gap_witness:
  "list_all (\<lambda>(raw, now). now \<le> minGapBetweenBursts) [(600, 500), (0, 2000), (1023, 10000)]
 \<and> list_all (\<lambda>t. pumpType t = ''none'' \<and> pumpAction t = ''off'' \<and> hw_calls t = [Delay 800])
       (fst (run [(600, 500), (0, 2000), (1023, 10000)] (snd (setup_sketch init_state))))
 \<and> lastPumpMillis (snd (run [(600, 500), (0, 2000), (1023, 10000)] (snd (setup_sketch init_state)))) = 0"
proof -
  have h: "list_all (\<lambda>(raw, now). now \<le> minGapBetweenBursts) [(600, 500), (0, 2000), (1023, 10000)]"
    by (simp add: minGapBetweenBursts_def)
  show ?thesis
    using h no_dose_in_first_gap [OF h] by blast
qed

subsection \<open>Clamping\<close>



subsection \<open>Calibration\<close>

lemma fit_third_voltage:
  "fit [12297699 / 8388608, 12297699 / 8388608, 12297699 / 8388608] [4, 7, 10] = (4, 9529461 / 8388608)"
proof -
  have s: "cal_sums [12297699 / 8388608, 12297699 / 8388608, 12297699 / 8388608] [4, 7, 10]
      = (4611637 / 1048576, 21, 8070365 / 262144, 1690165 / 262144)"
    by (simp add: cal_sums_eq fops fl_eval)
  have d: "fsub (fmul 3 (1690165 / 262144)) (fmul (4611637 / 1048576) (4611637 / 1048576)) = 1 / 524288"
    by (simp add: fops fl_eval)
  have nd: "\<not> \<bar>1 / 524288 :: real\<bar> < 1 / 1000000" by simp
  have sl: "fdiv (fsub (fmul 3 (8070365 / 262144)) (fmul (4611637 / 1048576) (21))) (1 / 524288) = 4"
    by (simp add: fops fl_eval)
  have ic: "fdiv (fsub (21) (fmul (4) (4611637 / 1048576))) 3 = 9529461 / 8388608"
    by (simp add: fops fl_eval)
  show ?thesis by (rule fit_steps [OF s d nd sl ic])
qed


text \<open>
  C5, at three equal voltages. With the sketch's third calibration voltage, 1.466 V, given
  for all three points, the sums are rounded and the denominator comes out as \<open>2 powi (- 19)\<close>,
  about \<open>1.9e-6\<close>, where exact arithmetic gives 0. The test \<open>\<bar>denom\<bar> < 1e-6\<close> is false,
  the fit divides, and the result is slope 4 and intercept about 1.136, not the fallback
  slope 0 and intercept 7.0.
\<close>

theorem fit_equal_voltages_divides:
  "cal_sums [cal_V3, cal_V3, cal_V3] [cal_pH1, cal_pH2, cal_pH3]
     = (4611637 / 1048576, 21, 8070365 / 262144, 1690165 / 262144)
 \<and> fsub (fmul 3 (1690165 / 262144)) (fmul (4611637 / 1048576) (4611637 / 1048576)) = 1 / 524288
 \<and> \<not> \<bar>1 / 524288 :: real\<bar> < 1 / 1000000
 \<and> fit [cal_V3, cal_V3, cal_V3] [cal_pH1, cal_pH2, cal_pH3] = (4, 9529461 / 8388608)
 \<and> fit [cal_V3, cal_V3, cal_V3] [cal_pH1, cal_pH2, cal_pH3] \<noteq> (0, 7)"
proof -
  have s: "cal_sums [12297699 / 8388608, 12297699 / 8388608, 12297699 / 8388608] [4, 7, 10]
      = (4611637 / 1048576, 21, 8070365 / 262144, 1690165 / 262144)"
    by (simp add: cal_sums_eq fops fl_eval)
  have d: "fsub (fmul 3 (1690165 / 262144)) (fmul (4611637 / 1048576) (4611637 / 1048576)) = 1 / 524288"
    by (simp add: fops fl_eval)
  show ?thesis
    using s d fit_third_voltage by (simp add: cal_values)
qed

lemma fit_int:
  "fit [1, 2, 4] [5, 7, 11] = (2, 3)"
proof -
  have s: "cal_sums [1, 2, 4] [5, 7, 11]
      = (7, 23, 63, 21)"
    by (simp add: cal_sums_eq fops fl_eval)
  have d: "fsub (fmul 3 (21)) (fmul (7) (7)) = 14"
    by (simp add: fops fl_eval)
  have nd: "\<not> \<bar>14 :: real\<bar> < 1 / 1000000" by simp
  have sl: "fdiv (fsub (fmul 3 (63)) (fmul (7) (23))) (14) = 2"
    by (simp add: fops fl_eval)
  have ic: "fdiv (fsub (23) (fmul (2) (7))) 3 = 3"
    by (simp add: fops fl_eval)
  show ?thesis by (rule fit_steps [OF s d nd sl ic])
qed




subsection \<open>The moving average\<close>

lemma fold_fadd_take:
  "n \<le> length buf \<Longrightarrow>
     fold (\<lambda>i acc. fadd acc (buf ! i)) [0..<n] a = foldl fadd a (take n buf)"
proof (induction n)
  case 0
  then show ?case by simp
next
  case (Suc n)
  then have "n < length buf" by simp
  then have "take (Suc n) buf = take n buf @ [buf ! n]" by (rule take_Suc_conv_app_nth)
  with Suc show ?case by simp
qed

lemma applyMA_out:
  assumes "length (maBuffer s) = MA_SIZE" "maCount s \<le> MA_SIZE"
  shows "fst (applyMA v s) =
     fdiv (foldl fadd 0 (take (maCount (snd (applyMA v s))) (maBuffer (snd (applyMA v s)))))
       (real (maCount (snd (applyMA v s))))"
  using assms by (simp add: applyMA_def Let_def fold_fadd_take)

lemma pushes_snoc: "pushes (vs @ [v]) s = snd (applyMA v (pushes vs s))"
  by (simp add: pushes_def)

lemma pushes_replicate_Suc:
  "pushes (replicate (Suc m) v) s = snd (applyMA v (pushes (replicate m v) s))"
proof -
  have "replicate (Suc m) v = replicate m v @ [v]"
    by (simp add: replicate_append_same)
  then show ?thesis by (simp only: pushes_snoc)
qed

lemma pushes_const:
  assumes "filter_ok s"
  shows "length (maBuffer (pushes (replicate m v) s)) = MA_SIZE
   \<and> maIndex (pushes (replicate m v) s) = (maIndex s + m) mod MA_SIZE
   \<and> maCount (pushes (replicate m v) s) = min MA_SIZE (maCount s + m)
   \<and> (\<forall>t<m. maBuffer (pushes (replicate m v) s) ! ((maIndex s + t) mod MA_SIZE) = v)"
proof (induction m)
  case 0
  show ?case using assms by (simp add: pushes_def filter_ok_def)
next
  case (Suc m)
  let ?p = "pushes (replicate m v) s"
  have step: "pushes (replicate (Suc m) v) s = snd (applyMA v ?p)"
    by (rule pushes_replicate_Suc)
  have len: "length (maBuffer ?p) = MA_SIZE" and idx: "maIndex ?p = (maIndex s + m) mod MA_SIZE"
    and cnt: "maCount ?p = min MA_SIZE (maCount s + m)"
    and old: "\<And>t. t < m \<Longrightarrow> maBuffer ?p ! ((maIndex s + t) mod MA_SIZE) = v"
    using Suc by simp_all
  have lt: "(maIndex s + t) mod MA_SIZE < length (maBuffer ?p)" for t
    by (simp add: len MA_SIZE_def)
  have "(maBuffer ?p)[maIndex ?p := v] ! ((maIndex s + t) mod MA_SIZE) = v" if "t < Suc m" for t
  proof (cases "t = m")
    case True
    then show ?thesis using lt [of m] by (simp add: idx)
  next
    case False
    with that have "t < m" by simp
    then show ?thesis using old [of t] lt [of t] lt [of m]
      by (cases "maIndex ?p = (maIndex s + t) mod MA_SIZE") (simp_all add: idx)
  qed
  moreover have "(maIndex s + m + 1) mod MA_SIZE = ((maIndex s + m) mod MA_SIZE + 1) mod MA_SIZE"
    by (simp add: mod_simps)
  ultimately show ?case
    unfolding step by (auto simp add: applyMA_def Let_def len idx cnt min_def)
qed

lemma pushes_const_full:
  assumes "filter_ok s" "MA_SIZE \<le> m"
  shows "maBuffer (pushes (replicate m v) s) = replicate MA_SIZE v"
    and "maCount (pushes (replicate m v) s) = MA_SIZE"
proof -
  note p = pushes_const [OF assms(1), of m v]
  have i: "maIndex s < MA_SIZE" using assms(1) by (simp add: filter_ok_def)
  have "maBuffer (pushes (replicate m v) s) ! j = v" if j: "j < MA_SIZE" for j
  proof -
    have "\<exists>t<MA_SIZE. (maIndex s + t) mod MA_SIZE = j"
    proof (cases "maIndex s \<le> j")
      case True
      then have "j - maIndex s < MA_SIZE \<and> (maIndex s + (j - maIndex s)) mod MA_SIZE = j"
        using j by simp
      then show ?thesis by blast
    next
      case False
      then have "maIndex s + (j + MA_SIZE - maIndex s) = j + MA_SIZE"
        using i by simp
      then have "(maIndex s + (j + MA_SIZE - maIndex s)) mod MA_SIZE = j"
        using j by simp
      moreover have "j + MA_SIZE - maIndex s < MA_SIZE"
        using False i by linarith
      ultimately show ?thesis by blast
    qed
    then obtain t where "t < MA_SIZE" "(maIndex s + t) mod MA_SIZE = j" by blast
    moreover from this assms(2) have "t < m" by simp
    ultimately show ?thesis using p by blast
  qed
  then show "maBuffer (pushes (replicate m v) s) = replicate MA_SIZE v"
    using p by (intro replicate_eqI) (auto simp add: in_set_conv_nth)
  show "maCount (pushes (replicate m v) s) = MA_SIZE"
    using p assms(2) by simp
qed

lemma pushes_fill:
  assumes "maIndex s = 0" "maCount s = 0" "length (maBuffer s) = MA_SIZE"
  shows "length vs \<le> MA_SIZE \<Longrightarrow>
     maCount (pushes vs s) = length vs \<and> maIndex (pushes vs s) = length vs mod MA_SIZE
   \<and> length (maBuffer (pushes vs s)) = MA_SIZE \<and> take (length vs) (maBuffer (pushes vs s)) = vs"
proof (induction vs rule: rev_induct)
  case Nil
  show ?case using assms by (simp add: pushes_def)
next
  case (snoc v vs)
  then have len: "length vs < MA_SIZE" by simp
  with snoc have ih: "maCount (pushes vs s) = length vs" "maIndex (pushes vs s) = length vs"
    "length (maBuffer (pushes vs s)) = MA_SIZE" "take (length vs) (maBuffer (pushes vs s)) = vs"
    by simp_all
  have "take (Suc (length vs)) ((maBuffer (pushes vs s))[length vs := v]) = vs @ [v]"
    using ih(3,4) len by (simp add: take_Suc_conv_app_nth)
  then show ?case using ih len
    by (simp add: pushes_snoc applyMA_def Let_def)
qed



text \<open>The error of a left-to-right sum whose additions are rounded by \<open>rnd\<close>.\<close>

lemma rounded_sum_err:
  fixes rnd :: "real \<Rightarrow> real"
  assumes rnd: "\<And>x. \<bar>rnd x - x\<bar> \<le> d * \<bar>x\<bar> + h" and d: "0 \<le> d" and h: "0 \<le> h"
  shows "\<bar>foldl (\<lambda>acc v. rnd (acc + v)) a vs - (a + sum_list vs)\<bar>
     \<le> ((1 + d) ^ length vs - 1) * (\<bar>a\<bar> + sum_list (map abs vs))
       + real (length vs) * h * (1 + d) ^ length vs"
proof (induction vs arbitrary: a)
  case Nil
  show ?case by simp
next
  case (Cons v vs)
  define a' where "a' = rnd (a + v)"
  define F where "F = foldl (\<lambda>acc v. rnd (acc + v)) a' vs"
  define c where "c = (1 + d) ^ length vs - 1"
  define T where "T = sum_list (map abs vs)"
  define u where "u = \<bar>a + v\<bar>"
  define A where "A = \<bar>a\<bar> + \<bar>v\<bar>"
  define m where "m = real (length vs)"
  have c: "0 \<le> c" using d by (simp add: c_def)
  have T: "0 \<le> T" unfolding T_def by (rule sum_list_nonneg) auto
  have m: "0 \<le> m" by (simp add: m_def)
  have uA: "u \<le> A" "0 \<le> u" by (simp_all add: u_def A_def)
  have P: "(1 + d) ^ length vs = c + 1" by (simp add: c_def)
  have ih: "\<bar>F - (a' + sum_list vs)\<bar> \<le> c * (\<bar>a'\<bar> + T) + m * h * (c + 1)"
    using Cons.IH [of a'] by (simp add: F_def c_def T_def m_def)
  have e: "\<bar>a' - (a + v)\<bar> \<le> d * u + h"
    using rnd [of "a + v"] by (simp add: a'_def u_def)
  then have a': "\<bar>a'\<bar> \<le> u + d * u + h"
    unfolding u_def by linarith
  have "c * \<bar>a'\<bar> \<le> c * (u + d * u + h)"
    using a' c by (rule mult_left_mono)
  then have ca': "c * \<bar>a'\<bar> \<le> c * u + c * d * u + c * h"
    by (simp add: algebra_simps)
  have "\<bar>F - (a + v + sum_list vs)\<bar> \<le> \<bar>F - (a' + sum_list vs)\<bar> + \<bar>a' - (a + v)\<bar>"
    by linarith
  also have "\<dots> \<le> (c * \<bar>a'\<bar> + c * T + m * h * (c + 1)) + (d * u + h)"
    using ih e by (simp add: algebra_simps)
  also have "\<dots> \<le> (c * u + c * d * u + c * h + c * T + m * h * (c + 1)) + (d * u + h)"
    using ca' by linarith
  also have "\<dots> \<le> (c + d + c * d) * (A + T) + (m + 1) * h * ((c + 1) * (1 + d))"
  proof -
    have "(c + d + c * d) * (A + T) + (m + 1) * h * ((c + 1) * (1 + d))
        - ((c * u + c * d * u + c * h + c * T + m * h * (c + 1)) + (d * u + h))
        = (c + d + c * d) * (A - u) + (d + c * d) * T + h * (c + 1) * (m + 1) * d"
      by (simp add: algebra_simps)
    moreover have "0 \<le> (c + d + c * d) * (A - u)"
      using c d uA by (intro mult_nonneg_nonneg add_nonneg_nonneg) simp_all
    moreover have "0 \<le> (d + c * d) * T"
      using c d T by (intro mult_nonneg_nonneg add_nonneg_nonneg) simp_all
    moreover have "0 \<le> h * (c + 1) * (m + 1) * d"
      using c d h m by (intro mult_nonneg_nonneg add_nonneg_nonneg) simp_all
    ultimately show ?thesis by linarith
  qed
  finally have "\<bar>F - (a + v + sum_list vs)\<bar>
      \<le> (c + d + c * d) * (A + T) + (m + 1) * h * ((c + 1) * (1 + d))" .
  moreover have "(1 + d) ^ length (v # vs) - 1 = c + d + c * d"
    by (simp add: P algebra_simps)
  moreover have "(1 + d) ^ length (v # vs) = (c + 1) * (1 + d)"
    by (simp add: P algebra_simps)
  moreover have "real (length (v # vs)) = m + 1" by (simp add: m_def)
  moreover have "\<bar>a\<bar> + sum_list (map abs (v # vs)) = A + T" by (simp add: A_def T_def)
  moreover have "foldl (\<lambda>acc v. rnd (acc + v)) a (v # vs) = F" by (simp add: F_def a'_def)
  moreover have "a + sum_list (v # vs) = a + v + sum_list vs" by simp
  ultimately show ?case by (simp only:)
qed

lemma fadd_foldl: "foldl fadd a vs = foldl (\<lambda>acc v. fl (acc + v)) a vs"
proof -
  have "fadd = (\<lambda>acc v. fl (acc + v))" by (simp add: fun_eq_iff fadd_def)
  then show ?thesis by simp
qed

lemma fl_err': "\<bar>fl x - x\<bar> \<le> 1 / 2 ^ 24 * \<bar>x\<bar> + 1 / 2 ^ 150"
  using fl_err [of x] by simp

lemma pow11: "(1 + 1 / 2 ^ 24 :: real) ^ 11 \<le> 1 + 1 / 2 ^ 20"
  by (simp add: power_divide)

text \<open>The error of the mean of at most ten values as \<^verbatim>\<open>applyMA\<close> computes it.\<close>

lemma mean_err:
  assumes n: "vs \<noteq> []" "length vs \<le> 10"
  shows "\<bar>fdiv (foldl fadd 0 vs) (real (length vs)) - sum_list vs / real (length vs)\<bar>
     \<le> sum_list (map abs vs) / real (length vs) / 2 ^ 20 + 1 / 2 ^ 145"
proof -
  define k where "k = real (length vs)"
  define S where "S = foldl fadd 0 vs"
  define T where "T = sum_list (map abs vs)"
  define P where "P = (1 + 1 / 2 ^ 24 :: real) ^ length vs"
  define h :: real where "h = 1 / 2 ^ 150"
  define d :: real where "d = 1 / 2 ^ 24"
  have k: "1 \<le> k" using n(1) by (cases vs) (simp_all add: k_def)
  have T: "0 \<le> T" unfolding T_def by (rule sum_list_nonneg) auto
  have h: "0 \<le> h" and d: "0 \<le> d" by (simp_all add: h_def d_def)
  have P1: "1 \<le> P" by (simp add: P_def)
  have "P * (1 + d) = (1 + 1 / 2 ^ 24 :: real) ^ Suc (length vs)"
    by (simp add: P_def d_def)
  also have "\<dots> \<le> (1 + 1 / 2 ^ 24 :: real) ^ 11"
    using n(2) by (intro power_increasing) simp_all
  also have "\<dots> \<le> 1 + 1 / 2 ^ 20" by (rule pow11)
  finally have P2: "P * (1 + d) \<le> 1 + 1 / 2 ^ 20" .
  have E: "\<bar>S - sum_list vs\<bar> \<le> (P - 1) * T + k * h * P"
    using rounded_sum_err [of fl "1 / 2 ^ 24" "1 / 2 ^ 150" 0 vs, OF fl_err']
    by (simp add: S_def T_def P_def k_def h_def fadd_foldl)
  have "\<bar>sum_list vs\<bar> \<le> T" unfolding T_def by (rule sum_list_abs)
  with E have S: "\<bar>S\<bar> \<le> T + ((P - 1) * T + k * h * P)" by linarith
  have r: "\<bar>fl (S / k) - S / k\<bar> \<le> d * \<bar>S / k\<bar> + h"
    using fl_err' [of "S / k"] by (simp add: d_def h_def)
  have "\<bar>S / k\<bar> = \<bar>S\<bar> / k" using k by simp
  also have "\<dots> \<le> (T + ((P - 1) * T + k * h * P)) / k"
    using S k by (intro divide_right_mono) simp_all
  finally have Sk: "d * \<bar>S / k\<bar> \<le> d * ((T + ((P - 1) * T + k * h * P)) / k)"
    using d by (rule mult_left_mono)
  have "\<bar>S / k - sum_list vs / k\<bar> = \<bar>S - sum_list vs\<bar> / k"
    using k by (simp add: diff_divide_distrib [symmetric])
  also have "\<dots> \<le> ((P - 1) * T + k * h * P) / k"
    using E k by (intro divide_right_mono) simp_all
  finally have Dk: "\<bar>S / k - sum_list vs / k\<bar> \<le> ((P - 1) * T + k * h * P) / k" .
  have "\<bar>fl (S / k) - sum_list vs / k\<bar>
      \<le> d * ((T + ((P - 1) * T + k * h * P)) / k) + h + ((P - 1) * T + k * h * P) / k"
    using r Sk Dk by linarith
  also have "\<dots> = (P * (1 + d) - 1) * (T / k) + h * (P * (1 + d)) + h"
    using k by (simp add: field_simps)
  also have "\<dots> \<le> (1 / 2 ^ 20) * (T / k) + h * (1 + 1 / 2 ^ 20) + h"
  proof -
    have "0 \<le> T / k" using T k by simp
    then have "(P * (1 + d) - 1) * (T / k) \<le> (1 / 2 ^ 20) * (T / k)"
      using P2 by (intro mult_right_mono) simp_all
    moreover have "h * (P * (1 + d)) \<le> h * (1 + 1 / 2 ^ 20)"
      using P2 h by (rule mult_left_mono)
    ultimately show ?thesis by linarith
  qed
  also have "\<dots> \<le> T / k / 2 ^ 20 + 1 / 2 ^ 145"
    by (simp add: h_def)
  finally show ?thesis
    by (simp add: fdiv_def S_def k_def T_def)
qed

lemma filled_out:
  assumes "maIndex s = 0" "maCount s = 0" "length (maBuffer s) = MA_SIZE"
    and n: "length (vs @ [v]) \<le> MA_SIZE"
  shows "fst (applyMA v (pushes vs s))
     = fdiv (foldl fadd 0 (vs @ [v])) (real (length (vs @ [v])))"
proof -
  have n': "length vs \<le> MA_SIZE" using n by simp
  have f: "maCount (pushes vs s) \<le> MA_SIZE" "length (maBuffer (pushes vs s)) = MA_SIZE"
    using pushes_fill [OF assms(1-3) n'] n' by simp_all
  have g: "maCount (pushes (vs @ [v]) s) = length (vs @ [v])"
    "take (length (vs @ [v])) (maBuffer (pushes (vs @ [v]) s)) = vs @ [v]"
    using pushes_fill [OF assms(1-3) n] by simp_all
  have "fst (applyMA v (pushes vs s)) =
     fdiv (foldl fadd 0 (take (maCount (pushes (vs @ [v]) s)) (maBuffer (pushes (vs @ [v]) s))))
       (real (maCount (pushes (vs @ [v]) s)))"
    unfolding pushes_snoc by (rule applyMA_out [OF f(2) f(1)])
  then show ?thesis by (simp only: g)
qed

lemma constant_out:
  assumes ok: "filter_ok s" and m: "MA_SIZE \<le> Suc m"
  shows "fst (applyMA c (pushes (replicate m c) s))
     = fdiv (foldl fadd 0 (replicate MA_SIZE c)) (real MA_SIZE)"
proof -
  let ?p = "pushes (replicate m c) s"
  have step: "pushes (replicate (Suc m) c) s = snd (applyMA c ?p)"
    by (rule pushes_replicate_Suc)
  have r: "length (maBuffer ?p) = MA_SIZE" "maCount ?p \<le> MA_SIZE"
    using pushes_const [OF ok, of m c] by simp_all
  show ?thesis
    using applyMA_out [OF r, of c] pushes_const_full [OF ok m, of c]
    by (simp only: step [symmetric] take_replicate min.idem)
qed

text \<open>
  C6, as the code has it. From a filter with cursor 0 and count 0, the push that brings
  the number of samples to \<open>k\<close>, for any \<open>k\<close> up to \<^verbatim>\<open>MA_SIZE\<close>, returns the binary32 sum
  of exactly those \<open>k\<close> samples, added in the order pushed, divided in binary32 by \<open>k\<close>,
  whatever the unwritten slots hold; it is within \<open>(\<bar>v\<^sub>1\<bar> + \<dots> + \<bar>v\<^sub>k\<bar>) / k / 2\<^sup>2\<^sup>0 + 2\<^sup>-\<^sup>1\<^sup>4\<^sup>5\<close>
  of their arithmetic mean. From any filter state in range, the push that brings a run of
  equal samples \<open>c\<close> to \<^verbatim>\<open>MA_SIZE\<close> or more returns the binary32 sum of \<^verbatim>\<open>MA_SIZE\<close> copies
  of \<open>c\<close> divided by \<^verbatim>\<open>MA_SIZE\<close>, which is within \<open>\<bar>c\<bar> / 2\<^sup>2\<^sup>0 + 2\<^sup>-\<^sup>1\<^sup>4\<^sup>5\<close> of \<open>c\<close>. The samples
  are of magnitude at most \<open>2\<^sup>1\<^sup>0\<^sup>0\<close>, so that no sum overflows.
\<close>

theorem moving_average_mean:
  "(maIndex s = 0 \<and> maCount s = 0 \<and> length (maBuffer s) = MA_SIZE
      \<and> length (vs @ [v]) \<le> MA_SIZE \<and> list_all (\<lambda>x. \<bar>x\<bar> \<le> 2 ^ 100) (vs @ [v])
     \<longrightarrow> fst (applyMA v (pushes vs s))
           = fdiv (foldl fadd 0 (vs @ [v])) (real (length (vs @ [v])))
       \<and> \<bar>fst (applyMA v (pushes vs s)) - sum_list (vs @ [v]) / real (length (vs @ [v]))\<bar>
           \<le> sum_list (map abs (vs @ [v])) / real (length (vs @ [v])) / 2 ^ 20 + 1 / 2 ^ 145)
 \<and> (filter_ok s \<and> MA_SIZE \<le> Suc m \<and> \<bar>c\<bar> \<le> 2 ^ 100
     \<longrightarrow> fst (applyMA c (pushes (replicate m c) s))
           = fdiv (foldl fadd 0 (replicate MA_SIZE c)) (real MA_SIZE)
       \<and> \<bar>fst (applyMA c (pushes (replicate m c) s)) - c\<bar> \<le> \<bar>c\<bar> / 2 ^ 20 + 1 / 2 ^ 145)"
proof (intro conjI impI)
  assume a: "maIndex s = 0 \<and> maCount s = 0 \<and> length (maBuffer s) = MA_SIZE
      \<and> length (vs @ [v]) \<le> MA_SIZE \<and> list_all (\<lambda>x. \<bar>x\<bar> \<le> 2 ^ 100) (vs @ [v])"
  then have s0: "maIndex s = 0" "maCount s = 0" "length (maBuffer s) = MA_SIZE"
    and n: "length (vs @ [v]) \<le> MA_SIZE"
    by simp_all
  show out: "fst (applyMA v (pushes vs s))
      = fdiv (foldl fadd 0 (vs @ [v])) (real (length (vs @ [v])))"
    by (rule filled_out [OF s0 n])
  have "vs @ [v] \<noteq> []" "length (vs @ [v]) \<le> 10"
    using n by (simp_all add: MA_SIZE_def)
  then show "\<bar>fst (applyMA v (pushes vs s)) - sum_list (vs @ [v]) / real (length (vs @ [v]))\<bar>
      \<le> sum_list (map abs (vs @ [v])) / real (length (vs @ [v])) / 2 ^ 20 + 1 / 2 ^ 145"
    unfolding out by (rule mean_err)
next
  assume b: "filter_ok s \<and> MA_SIZE \<le> Suc m \<and> \<bar>c\<bar> \<le> 2 ^ 100"
  then have ok: "filter_ok s" and m: "MA_SIZE \<le> Suc m" by simp_all
  show out: "fst (applyMA c (pushes (replicate m c) s))
      = fdiv (foldl fadd 0 (replicate MA_SIZE c)) (real MA_SIZE)"
    by (rule constant_out [OF ok m])
  have "\<bar>fdiv (foldl fadd 0 (replicate MA_SIZE c)) (real (length (replicate MA_SIZE c)))
        - sum_list (replicate MA_SIZE c) / real (length (replicate MA_SIZE c))\<bar>
      \<le> sum_list (map abs (replicate MA_SIZE c)) / real (length (replicate MA_SIZE c)) / 2 ^ 20
        + 1 / 2 ^ 145"
    by (rule mean_err) (simp_all add: MA_SIZE_def)
  then show "\<bar>fst (applyMA c (pushes (replicate m c) s)) - c\<bar> \<le> \<bar>c\<bar> / 2 ^ 20 + 1 / 2 ^ 145"
    unfolding out by (simp add: sum_list_replicate MA_SIZE_def)
qed

theorem moving_average_mean_witness:
  "maIndex (snd (setup_sketch init_state)) = 0 \<and> maCount (snd (setup_sketch init_state)) = 0
 \<and> length (maBuffer (snd (setup_sketch init_state))) = MA_SIZE
 \<and> length ([1, 2] @ [6 :: real]) \<le> MA_SIZE
 \<and> list_all (\<lambda>x. \<bar>x\<bar> \<le> 2 ^ 100) ([1, 2] @ [6 :: real])
 \<and> fst (applyMA 6 (pushes [1, 2] (snd (setup_sketch init_state)))) = 3
 \<and> filter_ok (snd (setup_sketch init_state)) \<and> MA_SIZE \<le> Suc 9 \<and> \<bar>5 / 2 :: real\<bar> \<le> 2 ^ 100
 \<and> \<bar>fst (applyMA (5 / 2) (pushes (replicate 9 (5 / 2)) (snd (setup_sketch init_state)))) - 5 / 2\<bar>
      \<le> \<bar>5 / 2\<bar> / 2 ^ 20 + 1 / 2 ^ 145"
proof -
  have h1: "maIndex (snd (setup_sketch init_state)) = 0 \<and> maCount (snd (setup_sketch init_state)) = 0
      \<and> length (maBuffer (snd (setup_sketch init_state))) = MA_SIZE
      \<and> length ([1, 2] @ [6 :: real]) \<le> MA_SIZE
      \<and> list_all (\<lambda>x. \<bar>x\<bar> \<le> 2 ^ 100) ([1, 2] @ [6 :: real])"
    by (simp add: setup_fields MA_SIZE_def)
  have h2: "filter_ok (snd (setup_sketch init_state)) \<and> MA_SIZE \<le> Suc 9
      \<and> \<bar>5 / 2 :: real\<bar> \<le> 2 ^ 100"
    by (simp add: filter_ok_def setup_fields MA_SIZE_def)
  have e: "fdiv (foldl fadd 0 ([1, 2] @ [6])) (real (length ([1, 2] @ [6 :: real]))) = 3"
    by (simp add: fops fl_eval)
  note t = moving_average_mean [of "snd (setup_sketch init_state)" "[1, 2]" 6 9 "5 / 2"]
  from t h1 have a: "fst (applyMA 6 (pushes [1, 2] (snd (setup_sketch init_state))))
      = fdiv (foldl fadd 0 ([1, 2] @ [6])) (real (length ([1, 2] @ [6 :: real])))"
    by blast
  from t h2 have b:
    "\<bar>fst (applyMA (5 / 2) (pushes (replicate 9 (5 / 2)) (snd (setup_sketch init_state)))) - 5 / 2\<bar>
      \<le> \<bar>5 / 2\<bar> / 2 ^ 20 + 1 / 2 ^ 145"
    by blast
  from a e have a': "fst (applyMA 6 (pushes [1, 2] (snd (setup_sketch init_state)))) = 3"
    by (rule trans)
  show ?thesis
    using h1 h2 a' b by blast
qed

text \<open>
  C6, as stated, fails. Ten pushes of the binary32 value nearest to 0.1 into the start-up
  filter return the next binary32 value above it, about 0.100000009, not the sample.
\<close>

theorem constant_input_not_returned:
  "fl 0.1 = 13421773 / 134217728
 \<and> fst (applyMA (fl 0.1) (pushes (replicate 9 (fl 0.1)) (snd (setup_sketch init_state))))
      = 6710887 / 67108864
 \<and> fst (applyMA (fl 0.1) (pushes (replicate 9 (fl 0.1)) (snd (setup_sketch init_state))))
      \<noteq> fl 0.1"
proof -
  have v: "fl 0.1 = 13421773 / 134217728"
    by (simp add: fl_eval)
  have ok: "filter_ok (snd (setup_sketch init_state))"
    by (simp add: filter_ok_def setup_fields MA_SIZE_def)
  have m: "MA_SIZE \<le> Suc 9" by (simp add: MA_SIZE_def)
  have s: "foldl fadd 0 (replicate MA_SIZE (13421773 / 134217728)) = 8388609 / 8388608"
    by (simp add: MA_SIZE_def numeral_eq_Suc fops fl_eval)
  have d: "fdiv (8388609 / 8388608) (real MA_SIZE) = 6710887 / 67108864"
    by (simp add: MA_SIZE_def fops fl_eval)
  show ?thesis
    unfolding v constant_out [OF ok m] s d by simp
qed

end
